theory Spec2Isabelle
  imports Main
begin

section \<open>Sanitizer (utils/sanitize.py)\<close>

text \<open>
  A Python \<open>str\<close> is a sequence of Unicode code points.  The sanitizer classifies
  code points by their Unicode general category and by the regular expression class
  \<open>\s\<close>, so its strings are modelled as lists of code points.
\<close>

type_synonym pystr = "nat list"

text \<open>\<open>FORBIDDEN_CHARS = ['<', '>', ':', '"', '/', '\\', '|', '?', '*']\<close>\<close>

definition FORBIDDEN_CHARS :: "nat list" where
  "FORBIDDEN_CHARS = [60, 62, 58, 34, 47, 92, 124, 63, 42]"

text \<open>\<open>text.replace(char, replacement)\<close> for a one-character \<open>char\<close>.\<close>

fun replace_char :: "nat \<Rightarrow> pystr \<Rightarrow> pystr \<Rightarrow> pystr" where
  "replace_char c r [] = []"
| "replace_char c r (x # xs) =
     (if x = c then r @ replace_char c r xs else x # replace_char c r xs)"

text \<open>\<open>unicodedata.category(char) == 'Cc'\<close>: U+0000..U+001F and U+007F..U+009F.\<close>

definition is_Cc :: "nat \<Rightarrow> bool" where
  "is_Cc c \<longleftrightarrow> c \<le> 31 \<or> (127 \<le> c \<and> c \<le> 159)"

text \<open>
  The class \<open>\s\<close> of the \<open>re\<close> module on a \<open>str\<close> pattern: the ASCII whitespace
  U+0009..U+000D, U+001C..U+001F, U+0020 and the other Unicode whitespace
  U+0085, U+00A0, U+1680, U+2000..U+200A, U+2028, U+2029, U+202F, U+205F, U+3000.
\<close>

definition is_space :: "nat \<Rightarrow> bool" where
  "is_space c \<longleftrightarrow>
     (9 \<le> c \<and> c \<le> 13) \<or> (28 \<le> c \<and> c \<le> 32) \<or> c = 133 \<or> c = 160 \<or> c = 5760 \<or>
     (8192 \<le> c \<and> c \<le> 8202) \<or> c = 8232 \<or> c = 8233 \<or> c = 8239 \<or> c = 8287 \<or>
     c = 12288"

text \<open>\<open>re.sub(r'\s+', ' ', text)\<close>: every maximal run of whitespace becomes one space.\<close>

function sub_spaces :: "pystr \<Rightarrow> pystr" where
  "sub_spaces [] = []"
| "sub_spaces (c # cs) =
     (if is_space c then 32 # sub_spaces (dropWhile is_space cs) else c # sub_spaces cs)"
  by pat_completeness auto
termination
  by (relation "measure length") (auto simp: length_dropWhile_le less_Suc_eq_le)

text \<open>\<open>text.strip(chars)\<close>: drops the characters of \<open>chars\<close> at both ends.\<close>

definition strip_chars :: "nat list \<Rightarrow> pystr \<Rightarrow> pystr" where
  "strip_chars cs t =
     rev (dropWhile (\<lambda>c. c \<in> set cs) (rev (dropWhile (\<lambda>c. c \<in> set cs) t)))"

definition sanitize_text_with :: "pystr \<Rightarrow> pystr \<Rightarrow> pystr" where
  "sanitize_text_with text replacement =
     (if text = [] then []
      else
        let text1 = foldl (\<lambda>t char. replace_char char replacement t) text FORBIDDEN_CHARS;
            text2 = filter (\<lambda>char. \<not> is_Cc char) text1;
            text3 = sub_spaces text2
        in strip_chars [46, 32] text3)"

text \<open>The default \<open>replacement = '_'\<close>.\<close>

definition sanitize_text :: "pystr \<Rightarrow> pystr" where
  "sanitize_text text = sanitize_text_with text [95]"

section \<open>Mailbox gateway (outlook_handler.py)\<close>

text \<open>
  Mailbox texts (subjects, categories, messages of exceptions) are \<open>string\<close>s whose
  characters are read as the code points U+0000..U+00FF, on which \<open>str.lower()\<close> is
  the character-wise map below.
\<close>

text \<open>
  The exceptions that reach the processor: \<open>OutlookError\<close>, \<open>PDFGeneratorError\<close>, and
  any other subclass of \<open>Exception\<close>; each carries its message \<open>str(e)\<close>.  A
  \<open>com_error\<close> of the provider is handled inside the gateway and is given by its text.
\<close>

datatype exn = OutlookError string | PDFGeneratorError string | OtherException string

fun exn_str :: "exn \<Rightarrow> string" where
  "exn_str (OutlookError msg) = msg"
| "exn_str (PDFGeneratorError msg) = msg"
| "exn_str (OtherException msg) = msg"

text \<open>The provider calls made on a mail item, and the properties read from it.\<close>

datatype com_op = PutCategories | PutUnRead | Save | Move

datatype com_prop =
  PClass | PUnRead | PSubject | PSenderEmailAddress | PSenderName | PBody | PReceivedTime |
  PAttachments

text \<open>
  The provider's mail item behind an \<open>EmailItem\<close>: its properties, the folder it was
  moved to (\<open>None\<close> while it stays where the scan found it), and how the provider
  answers: \<open>read_faults p\<close> says that reading property \<open>p\<close> raises \<open>com_error\<close>;
  \<open>faults n op\<close> gives the text of the \<open>com_error\<close> raised when the call \<open>op\<close> is the
  \<open>n\<close>-th mutating call on this item (\<open>None\<close>: the call succeeds); \<open>save_outcome\<close> is
  what \<open>save_attachments\<close> does (the saved paths, or the exception that leaves it).
\<close>

record mail_item =
  Subject :: string
  SenderEmailAddress :: string
  SenderName :: string
  Body :: string
  ReceivedTime :: string
  AttachmentsCount :: nat
  Categories :: string
  UnRead :: bool
  ItemClass :: nat
  MovedTo :: "string option"
  read_faults :: "com_prop \<Rightarrow> bool"
  faults :: "nat \<Rightarrow> com_op \<Rightarrow> string option"
  ncalls :: nat
  save_outcome :: "exn + string list"

text \<open>One mutating provider call: its failure, if any, and the item with the call counted.\<close>

definition com_call :: "com_op \<Rightarrow> mail_item \<Rightarrow> string option \<times> mail_item" where
  "com_call op m = (faults m (ncalls m) op, m\<lparr>ncalls := Suc (ncalls m)\<rparr>)"

text \<open>The accessors of \<open>EmailItem\<close>: a \<open>com_error\<close> yields the empty default.\<close>

definition subject :: "mail_item \<Rightarrow> string" where
  "subject m = (if read_faults m PSubject then [] else Subject m)"

definition sender :: "mail_item \<Rightarrow> string" where
  "sender m =
     (if read_faults m PSenderEmailAddress then []
      else if SenderEmailAddress m \<noteq> [] then SenderEmailAddress m
      else if read_faults m PSenderName then []
      else SenderName m)"

definition sender_name :: "mail_item \<Rightarrow> string" where
  "sender_name m = (if read_faults m PSenderName then [] else SenderName m)"

definition received_time :: "mail_item \<Rightarrow> string option" where
  "received_time m = (if read_faults m PReceivedTime then None else Some (ReceivedTime m))"

definition body :: "mail_item \<Rightarrow> string" where
  "body m = (if read_faults m PBody then [] else Body m)"

definition has_attachments :: "mail_item \<Rightarrow> bool" where
  "has_attachments m = (if read_faults m PAttachments then False else AttachmentsCount m > 0)"

text \<open>
  \<open>EmailItem.save_attachments(folder)\<close> creates the folder and saves each attachment; a
  \<open>com_error\<close> is logged and the files saved so far are returned, any other exception
  (of \<open>os.makedirs\<close>) leaves the method.
\<close>

definition save_attachments :: "string \<Rightarrow> mail_item \<Rightarrow> exn + string list" where
  "save_attachments folder m = save_outcome m"

text \<open>
  \<open>EmailItem.set_category\<close>: assigns \<open>Categories\<close>, then \<open>Save()\<close>; a \<open>com_error\<close> of
  either is logged and raised again as
  \<open>OutlookError(f"Impossible de d\'efinir la cat\'egorie: {e}")\<close>.
\<close>

definition set_category_msg :: string where
  "set_category_msg =
     ''Impossible de d'' @ [CHR 0xE9] @ ''finir la cat'' @ [CHR 0xE9] @ ''gorie: ''"

definition set_category :: "string \<Rightarrow> mail_item \<Rightarrow> (exn + unit) \<times> mail_item" where
  "set_category category m =
     (case com_call PutCategories m of
        (Some e, m1) \<Rightarrow> (Inl (OutlookError (set_category_msg @ e)), m1)
      | (None, m1) \<Rightarrow>
          (case com_call Save (m1\<lparr>Categories := category\<rparr>) of
             (Some e, m2) \<Rightarrow> (Inl (OutlookError (set_category_msg @ e)), m2)
           | (None, m2) \<Rightarrow> (Inr (), m2)))"

text \<open>
  \<open>EmailItem.mark_as_read\<close>: assigns \<open>UnRead = False\<close>, then \<open>Save()\<close>; a \<open>com_error\<close>
  of either is logged and the method returns normally.
\<close>

definition mark_as_read :: "mail_item \<Rightarrow> (exn + unit) \<times> mail_item" where
  "mark_as_read m =
     (case com_call PutUnRead m of
        (Some e, m1) \<Rightarrow> (Inr (), m1)
      | (None, m1) \<Rightarrow>
          (case com_call Save (m1\<lparr>UnRead := False\<rparr>) of
             (Some e, m2) \<Rightarrow> (Inr (), m2)
           | (None, m2) \<Rightarrow> (Inr (), m2)))"

text \<open>
  \<open>EmailItem.move_to(target_folder)\<close>: \<open>Move\<close>; returns \<open>True\<close>, or \<open>False\<close> after a
  logged \<open>com_error\<close>.
\<close>

definition move_to :: "string \<Rightarrow> mail_item \<Rightarrow> (exn + bool) \<times> mail_item" where
  "move_to target_folder m =
     (case com_call Move m of
        (Some e, m1) \<Rightarrow> (Inr False, m1)
      | (None, m1) \<Rightarrow> (Inr True, m1\<lparr>MovedTo := Some target_folder\<rparr>))"

section \<open>Predicates used in the proofs\<close>

text \<open>
  A text in which every whitespace character is a space that is followed by no other
  whitespace: what \<open>sub_spaces\<close> produces and leaves alone.
\<close>

fun single_spaced :: "pystr \<Rightarrow> bool" where
  "single_spaced [] = True"
| "single_spaced (c # cs) =
     ((if is_space c then c = 32 \<and> (cs = [] \<or> \<not> is_space (hd cs)) else True) \<and>
      single_spaced cs)"

text \<open>The texts that \<open>sanitize_text\<close> returns.\<close>

definition clean :: "pystr \<Rightarrow> bool" where
  "clean t \<longleftrightarrow>
     list_all (\<lambda>c. c \<notin> set FORBIDDEN_CHARS \<and> \<not> is_Cc c) t \<and> single_spaced t \<and>
     (t = [] \<or> (hd t \<notin> {46, 32} \<and> last t \<notin> {46, 32}))"

section \<open>The sanitizer is idempotent\<close>

lemma replace_char_single: "replace_char c [r] xs = map (\<lambda>x. if x = c then r else x) xs"
  by (induction xs) auto

lemma replace_char_absent: "c \<notin> set xs \<Longrightarrow> replace_char c r xs = xs"
  by (induction xs) auto

lemma foldl_replace_id:
  "\<forall>c \<in> set t. c \<notin> set cs \<Longrightarrow> foldl (\<lambda>t char. replace_char char r t) t cs = t"
proof (induction cs arbitrary: t)
  case Nil then show ?case by simp
next
  case (Cons a cs)
  have "a \<notin> set t" using Cons.prems by auto
  then have "replace_char a r t = t" by (rule replace_char_absent)
  then show ?case using Cons by simp
qed

lemma foldl_replace_map:
  "foldl (\<lambda>t char. replace_char char [95] t) t FORBIDDEN_CHARS
     = map (\<lambda>x. if x \<in> set FORBIDDEN_CHARS then 95 else x) t"
  by (simp add: FORBIDDEN_CHARS_def replace_char_single)

lemma sub_spaces_hd: "xs \<noteq> [] \<Longrightarrow> \<not> is_space (hd xs) \<Longrightarrow> sub_spaces xs \<noteq> [] \<and> hd (sub_spaces xs) = hd xs"
  by (cases xs) auto

lemma single_spaced_sub_spaces: "single_spaced (sub_spaces t)"
proof (induction t rule: sub_spaces.induct)
  case 1 show ?case by simp
next
  case (2 c cs)
  show ?case
  proof (cases "is_space c")
    case True
    let ?d = "dropWhile is_space cs"
    have "sub_spaces ?d = [] \<or> \<not> is_space (hd (sub_spaces ?d))"
    proof (cases "?d = []")
      case True then show ?thesis by (metis sub_spaces.simps(1))
    next
      case False
      then have "\<not> is_space (hd ?d)" by (rule hd_dropWhile)
      with False show ?thesis using sub_spaces_hd by simp
    qed
    with True 2 show ?thesis by simp
  next
    case False
    with 2 show ?thesis by simp
  qed
qed

lemma sub_spaces_fixed: "single_spaced t \<Longrightarrow> sub_spaces t = t"
proof (induction t rule: sub_spaces.induct)
  case 1 show ?case by simp
next
  case (2 c cs)
  show ?case
  proof (cases "is_space c")
    case True
    with 2 have c: "c = 32" and nxt: "cs = [] \<or> \<not> is_space (hd cs)" and ss: "single_spaced cs"
      by auto
    from nxt have "dropWhile is_space cs = cs" by (cases cs) auto
    with 2 True c ss show ?thesis by simp
  next
    case False
    with 2 show ?thesis by simp
  qed
qed

lemma set_sub_spaces: "set (sub_spaces t) \<subseteq> insert 32 (set t)"
proof (induction t rule: sub_spaces.induct)
  case 1 show ?case by simp
next
  case (2 c cs)
  have "set (dropWhile is_space cs) \<subseteq> set cs" by (rule set_dropWhileD[THEN subsetI])
  with 2 show ?case by (cases "is_space c") auto
qed

lemma single_spaced_append: "single_spaced (xs @ ys) \<Longrightarrow> single_spaced xs \<and> single_spaced ys"
  by (induction xs) (auto simp: hd_append split: if_splits)

lemma strip_decomp:
  "\<exists>pre post. t = pre @ strip_chars cs t @ post"
proof -
  let ?P = "\<lambda>c. c \<in> set cs"
  let ?d = "dropWhile ?P t"
  have "t = takeWhile ?P t @ ?d" by simp
  moreover have "?d = rev (dropWhile ?P (rev ?d)) @ rev (takeWhile ?P (rev ?d))"
    by (metis rev_append rev_rev_ident takeWhile_dropWhile_id)
  ultimately have "t = takeWhile ?P t @ strip_chars cs t @ rev (takeWhile ?P (rev ?d))"
    by (simp add: strip_chars_def)
  then show ?thesis by blast
qed

lemma strip_ends:
  assumes "strip_chars cs t \<noteq> []"
  shows "hd (strip_chars cs t) \<notin> set cs \<and> last (strip_chars cs t) \<notin> set cs"
proof -
  let ?P = "\<lambda>c. c \<in> set cs"
  let ?d = "dropWhile ?P t"
  let ?e = "dropWhile ?P (rev ?d)"
  have e: "?e \<noteq> []" using assms by (simp add: strip_chars_def)
  then have he: "\<not> ?P (hd ?e)" by (rule hd_dropWhile)
  have "last (strip_chars cs t) = hd ?e" using e by (simp add: strip_chars_def last_rev)
  with he have l: "last (strip_chars cs t) \<notin> set cs" by simp
  have d: "?d \<noteq> []" using e by (metis dropWhile.simps(1) rev.simps(1))
  then have hd: "\<not> ?P (hd ?d)" by (rule hd_dropWhile)
  have "rev ?d \<noteq> []" using d by simp
  moreover have "\<not> ?P (last (rev ?d))" using d hd by (simp add: last_rev)
  have "?d = rev ?e @ rev (takeWhile ?P (rev ?d))"
    by (metis rev_append rev_rev_ident takeWhile_dropWhile_id)
  then have "hd ?d = hd (rev ?e)" using e by (metis hd_append2 rev_is_Nil_conv)
  with hd have "hd (strip_chars cs t) \<notin> set cs" by (simp add: strip_chars_def)
  with l show ?thesis by simp
qed

lemma strip_fixed:
  assumes "t = [] \<or> (hd t \<notin> set cs \<and> last t \<notin> set cs)"
  shows "strip_chars cs t = t"
proof (cases "t = []")
  case True then show ?thesis by (simp add: strip_chars_def)
next
  case False
  with assms have h: "hd t \<notin> set cs" and l: "last t \<notin> set cs" by auto
  from False h have 1: "dropWhile (\<lambda>c. c \<in> set cs) t = t" by (cases t) auto
  from False l have "hd (rev t) \<notin> set cs" by (simp add: hd_rev)
  with False have 2: "dropWhile (\<lambda>c. c \<in> set cs) (rev t) = rev t" by (cases "rev t") auto
  show ?thesis by (simp add: strip_chars_def 1 2)
qed

lemma sanitize_clean: "clean (sanitize_text t)"
proof (cases "t = []")
  case True then show ?thesis by (simp add: sanitize_text_def sanitize_text_with_def clean_def)
next
  case False
  let ?t1 = "map (\<lambda>x. if x \<in> set FORBIDDEN_CHARS then 95 else x) t"
  let ?t2 = "filter (\<lambda>char. \<not> is_Cc char) ?t1"
  let ?t3 = "sub_spaces ?t2"
  have s: "sanitize_text t = strip_chars [46, 32] ?t3"
    using False by (simp add: sanitize_text_def sanitize_text_with_def foldl_replace_map)
  have a2: "\<forall>c \<in> set ?t2. c \<notin> set FORBIDDEN_CHARS \<and> \<not> is_Cc c"
    by (auto simp: FORBIDDEN_CHARS_def)
  have a3: "\<forall>c \<in> set ?t3. c \<notin> set FORBIDDEN_CHARS \<and> \<not> is_Cc c"
  proof
    fix c assume "c \<in> set ?t3"
    then have "c = 32 \<or> c \<in> set ?t2" using set_sub_spaces[of ?t2] by auto
    then show "c \<notin> set FORBIDDEN_CHARS \<and> \<not> is_Cc c"
      using a2 by (auto simp: FORBIDDEN_CHARS_def is_Cc_def)
  qed
  obtain pre post where d: "?t3 = pre @ strip_chars [46, 32] ?t3 @ post"
    using strip_decomp by blast
  have "single_spaced (pre @ strip_chars [46, 32] ?t3 @ post)"
    using single_spaced_sub_spaces[of ?t2] d by simp
  then have ss: "single_spaced (strip_chars [46, 32] ?t3)"
    using single_spaced_append by blast
  have "set (strip_chars [46, 32] ?t3) \<subseteq> set ?t3"
    by (subst (2) d) auto
  with a3 have el: "\<forall>c \<in> set (strip_chars [46, 32] ?t3). c \<notin> set FORBIDDEN_CHARS \<and> \<not> is_Cc c"
    by blast
  have ends: "strip_chars [46, 32] ?t3 = [] \<or>
      (hd (strip_chars [46, 32] ?t3) \<notin> {46, 32} \<and> last (strip_chars [46, 32] ?t3) \<notin> {46, 32})"
    using strip_ends[of "[46, 32]" ?t3] by auto
  show ?thesis unfolding s clean_def list_all_iff using el ss ends by blast
qed

lemma sanitize_fixed: "clean t \<Longrightarrow> sanitize_text t = t"
proof (cases "t = []")
  case True then show ?thesis by (simp add: sanitize_text_def sanitize_text_with_def)
next
  case False
  assume c: "clean t"
  have 1: "foldl (\<lambda>t char. replace_char char [95] t) t FORBIDDEN_CHARS = t"
    using c by (intro foldl_replace_id) (simp add: clean_def list_all_iff)
  have 2: "filter (\<lambda>char. \<not> is_Cc char) t = t"
    using c by (simp add: clean_def list_all_iff)
  have 3: "sub_spaces t = t" using c by (simp add: clean_def sub_spaces_fixed)
  have 4: "strip_chars [46, 32] t = t" using c by (intro strip_fixed) (simp add: clean_def)
  show ?thesis using False by (simp add: sanitize_text_def sanitize_text_with_def 1 2 3 4)
qed

text \<open>
  Claim C9.  Sanitizing is idempotent: for every text \<open>x\<close>, sanitizing the sanitized
  text gives the sanitized text again.
\<close>

theorem sanitize_text_idempotent: "sanitize_text (sanitize_text x) = sanitize_text x"
  by (rule sanitize_fixed) (rule sanitize_clean)

theorem sanitize_text_idempotent_witness:
  "sanitize_text (sanitize_text [32, 46, 60, 9, 10, 97, 160, 8195, 98, 46, 32, 46]) =
     [95, 97, 32, 98]"
proof -
  have "sanitize_text [32, 46, 60, 9, 10, 97, 160, 8195, 98, 46, 32, 46] = [95, 97, 32, 98]"
    by (simp add: sanitize_text_def sanitize_text_with_def FORBIDDEN_CHARS_def is_Cc_def
        is_space_def strip_chars_def)
  with sanitize_text_idempotent [of "[32, 46, 60, 9, 10, 97, 160, 8195, 98, 46, 32, 46]"]
  show ?thesis by simp
qed

end
